theory Spec2Isabelle
  imports Main "HOL-Library.AList" "HOL-Library.Sublist"
begin

section \<open>The river-crossing puzzle of \<^verbatim>\<open>river_crossing.py\<close>\<close>

text \<open>
  The Python program keeps one \<^verbatim>\<open>RiverCrossingGame\<close> object. Its \<^verbatim>\<open>state\<close> is a
  \<^verbatim>\<open>GameState\<close> with a dictionary \<^verbatim>\<open>positions\<close> (entity name to bank) and a list
  \<^verbatim>\<open>history\<close> of recorded moves. A dictionary iterates in insertion order and the search
  enumerates candidate moves in that order, so \<^verbatim>\<open>positions\<close> is an association list:
  \<^verbatim>\<open>d[k]\<close> is \<^const>\<open>map_of\<close> (a missing key raises \<^verbatim>\<open>KeyError\<close>), \<^verbatim>\<open>d[k] = v\<close> is
  \<^const>\<open>AList.update\<close> (an existing key keeps its place, a new one goes last), and
  \<^verbatim>\<open>d.items()\<close> is the list itself. Printing is left out: no claim is about the text
  written to the terminal.
\<close>

subsection \<open>Data model\<close>

datatype Bank = LEFT | RIGHT

definition opposite :: "Bank \<Rightarrow> Bank" where
  "opposite self = (if self = LEFT then RIGHT else LEFT)"

type_synonym move = "string \<times> Bank"

record GameState =
  positions :: "(string \<times> Bank) list"
  history :: "move list"

text \<open>
  \<^verbatim>\<open>_cached_solutions\<close> is declared \<^verbatim>\<open>Optional[Set[tuple[str, Bank]]]\<close> and is assigned
  \<^verbatim>\<open>set(solution)\<close>: a set of moves, without order or repetition. Isabelle names cannot
  begin with an underscore, so the two underscore names of the class carry the prefix
  \<open>u_\<close>.
\<close>

record RiverCrossingGame =
  state :: GameState
  move_count :: int
  u_cached_solutions :: "move set option"

datatype error = KeyError | RecursionError

definition new_game :: RiverCrossingGame where
  "new_game =
     \<lparr>state = \<lparr>positions = [(''Farmer'', LEFT), (''Fox'', LEFT), (''Chicken'', LEFT), (''Grain'', LEFT)],
               history = []\<rparr>,
      move_count = 0,
      u_cached_solutions = None\<rparr>"

subsection \<open>Live play\<close>

definition get_items_at_bank :: "RiverCrossingGame \<Rightarrow> Bank \<Rightarrow> string list" where
  "get_items_at_bank self bank =
     map fst (filter (\<lambda>(item, pos). pos = bank) (positions (state self)))"

definition is_valid_state :: "RiverCrossingGame \<Rightarrow> error + bool" where
  "is_valid_state self =
     (case map_of (positions (state self)) ''Farmer'' of
        None \<Rightarrow> Inl KeyError
      | Some farmer_bank \<Rightarrow>
          (let opposite_bank = opposite farmer_bank;
               items_without_farmer = get_items_at_bank self opposite_bank
           in if ''Fox'' \<in> set items_without_farmer \<and> ''Chicken'' \<in> set items_without_farmer
              then Inr False
              else if ''Chicken'' \<in> set items_without_farmer \<and> ''Grain'' \<in> set items_without_farmer
              then Inr False
              else Inr True))"

definition is_won :: "RiverCrossingGame \<Rightarrow> bool" where
  "is_won self = list_all (\<lambda>(item, pos). pos = RIGHT) (positions (state self))"

text \<open>
  \<^verbatim>\<open>make_move\<close> tests its argument with \<^verbatim>\<open>if item\<close>: \<^verbatim>\<open>None\<close> and the empty string
  are both false there. It returns a boolean and mutates the game in place; the model
  returns the boolean with the game after the call, or the exception raised.
\<close>

definition item_given :: "string option \<Rightarrow> bool" where
  "item_given item = (case item of None \<Rightarrow> False | Some s \<Rightarrow> s \<noteq> [])"

definition make_move :: "string option \<Rightarrow> RiverCrossingGame \<Rightarrow> error + (bool \<times> RiverCrossingGame)" where
  "make_move item self =
     (if item_given item \<and> the item \<notin> fst ` set (positions (state self)) then Inr (False, self)
      else
        (case map_of (positions (state self)) ''Farmer'' of
           None \<Rightarrow> Inl KeyError
         | Some current_bank \<Rightarrow>
             if item_given item \<and> map_of (positions (state self)) (the item) \<noteq> Some current_bank
             then Inr (False, self)
             else
               (let next_bank = opposite current_bank;
                    positions1 = AList.update ''Farmer'' next_bank (positions (state self))
                in if item_given item
                   then Inr (True,
                     self\<lparr>state := \<lparr>positions = AList.update (the item) next_bank positions1,
                                    history = history (state self) @ [(the item, next_bank)]\<rparr>,
                          move_count := move_count self + 1\<rparr>)
                   else Inr (True,
                     self\<lparr>state := \<lparr>positions = positions1,
                                    history = history (state self) @ [(''Farmer'', next_bank)]\<rparr>,
                          move_count := move_count self + 1\<rparr>))))"

subsection \<open>Search\<close>

definition u_is_valid_state :: "(string \<times> Bank) list \<Rightarrow> error + bool" where
  "u_is_valid_state positions' =
     (case map_of positions' ''Farmer'' of
        None \<Rightarrow> Inl KeyError
      | Some farmer_bank \<Rightarrow>
          (let opposite_bank = (if farmer_bank = LEFT then RIGHT else LEFT);
               items_without_farmer =
                 map fst (filter (\<lambda>(item, pos). pos = opposite_bank \<and> item \<noteq> ''Farmer'') positions')
           in if ''Fox'' \<in> set items_without_farmer \<and> ''Chicken'' \<in> set items_without_farmer
              then Inr False
              else if ''Chicken'' \<in> set items_without_farmer \<and> ''Grain'' \<in> set items_without_farmer
              then Inr False
              else Inr True))"

text \<open>
  \<^verbatim>\<open>if result:\<close> on an \<^verbatim>\<open>Optional[List]\<close> is false for \<^verbatim>\<open>None\<close> and for the empty list.
\<close>

definition truthy :: "move list option \<Rightarrow> bool" where
  "truthy result = (case result of None \<Rightarrow> False | Some xs \<Rightarrow> xs \<noteq> [])"

text \<open>
  The nested function \<^verbatim>\<open>dfs\<close> of \<^verbatim>\<open>solve\<close>. The \<^verbatim>\<open>visited\<close> set is one object shared
  by all recursive calls, so it is passed in and returned. The first argument is the
  number of stack frames still available: Python raises \<^verbatim>\<open>RecursionError\<close> when the
  interpreter's recursion limit is reached. \<open>dfs_items\<close> is the \<^verbatim>\<open>for item in
  items_with_farmer\<close> loop of the body.
\<close>

fun dfs :: "nat \<Rightarrow> GameState \<Rightarrow> move set set \<Rightarrow> error + (move list option \<times> move set set)"
  and dfs_items :: "nat \<Rightarrow> GameState \<Rightarrow> Bank \<Rightarrow> string list \<Rightarrow> move set set
                      \<Rightarrow> error + (move list option \<times> move set set)" where
  "dfs 0 state' visited = Inl RecursionError"
| "dfs (Suc depth) state' visited =
     (if list_all (\<lambda>(item, pos). pos = RIGHT) (positions state') then Inr (Some (history state'), visited)
      else
        (let state_key = set (positions state') in
         if state_key \<in> visited then Inr (None, visited)
         else
           (case map_of (positions state') ''Farmer'' of
              None \<Rightarrow> Inl KeyError
            | Some farmer_bank \<Rightarrow>
                (let items_with_farmer =
                       map fst (filter (\<lambda>(item, pos). pos = farmer_bank \<and> item \<noteq> ''Farmer'')
                                  (positions state'));
                     next_state =
                       \<lparr>positions = AList.update ''Farmer'' (opposite farmer_bank) (positions state'),
                        history = history state' @ [(''Farmer'', opposite farmer_bank)]\<rparr>
                 in case u_is_valid_state (positions next_state) of
                      Inl e \<Rightarrow> Inl e
                    | Inr False \<Rightarrow>
                        dfs_items depth state' farmer_bank items_with_farmer (insert state_key visited)
                    | Inr True \<Rightarrow>
                        (case dfs depth next_state (insert state_key visited) of
                           Inl e \<Rightarrow> Inl e
                         | Inr (result, visited') \<Rightarrow>
                             if truthy result then Inr (result, visited')
                             else dfs_items depth state' farmer_bank items_with_farmer visited')))))"
| "dfs_items depth state' farmer_bank [] visited = Inr (None, visited)"
| "dfs_items depth state' farmer_bank (item # items) visited =
     (let next_state =
            \<lparr>positions = AList.update item (opposite farmer_bank)
                           (AList.update ''Farmer'' (opposite farmer_bank) (positions state')),
             history = history state' @ [(item, opposite farmer_bank)]\<rparr>
      in case u_is_valid_state (positions next_state) of
           Inl e \<Rightarrow> Inl e
         | Inr False \<Rightarrow> dfs_items depth state' farmer_bank items visited
         | Inr True \<Rightarrow>
             (case dfs depth next_state visited of
                Inl e \<Rightarrow> Inl e
              | Inr (result, visited') \<Rightarrow>
                  if truthy result then Inr (result, visited')
                  else dfs_items depth state' farmer_bank items visited'))"

text \<open>
  \<^verbatim>\<open>solve\<close> returns \<^verbatim>\<open>list(self._cached_solutions)\<close> when the cache is non-empty. The
  order in which Python lists a set of tuples of strings and enum members depends on
  their hashes, which vary from one process to the next. The model therefore returns the
  cached set itself, tagged \<open>FromCache\<close>, and \<open>may_return\<close> says which values the
  caller can receive for a result: for \<open>FromCache c\<close>, any list of the elements of
  \<open>c\<close> without repetition.
\<close>

datatype solve_result = Computed "move list option" | FromCache "move set"

definition solve :: "nat \<Rightarrow> RiverCrossingGame \<Rightarrow> error + (solve_result \<times> RiverCrossingGame)" where
  "solve limit self =
     (if u_cached_solutions self \<noteq> None \<and> the (u_cached_solutions self) \<noteq> {}
      then Inr (FromCache (the (u_cached_solutions self)), self)
      else
        (case dfs limit (state self) {} of
           Inl e \<Rightarrow> Inl e
         | Inr (solution, visited) \<Rightarrow>
             if truthy solution
             then Inr (Computed solution, self\<lparr>u_cached_solutions := Some (set (the solution))\<rparr>)
             else Inr (Computed solution, self)))"

definition may_return :: "solve_result \<Rightarrow> move list option \<Rightarrow> bool" where
  "may_return r v =
     (case r of
        Computed solution \<Rightarrow> v = solution
      | FromCache c \<Rightarrow> (case v of None \<Rightarrow> False | Some xs \<Rightarrow> distinct xs \<and> set xs = c))"

subsection \<open>The search on an explicit store\<close>

text \<open>
  \<^verbatim>\<open>dfs\<close> receives \<^verbatim>\<open>self.state\<close> itself, not a copy, and it writes into dictionaries and
  lists (\<^verbatim>\<open>next_state.positions[...] = ...\<close>, \<^verbatim>\<open>next_state.history.append(...)\<close>). Whether
  these writes can reach the objects of the live game depends on which objects
  \<^verbatim>\<open>GameState.copy\<close> shares. The second model of the search therefore keeps the objects in
  a store: \<open>dict_at\<close> and \<open>list_at\<close> give the dictionary and the list at an
  address, and \<open>next_addr\<close> is the first address not yet in use. A \<^verbatim>\<open>GameState\<close> object
  is the pair of the addresses in its two fields; no statement of the program assigns to
  a field of a \<^verbatim>\<open>GameState\<close>. \<^verbatim>\<open>dict.copy()\<close> and \<^verbatim>\<open>list.copy()\<close> make new objects
  with the same content (their elements are immutable strings, enum members and tuples).
  \<open>next_state_alone\<close> and \<open>next_state_with\<close> are the statements of \<^verbatim>\<open>dfs\<close> that build
  \<^verbatim>\<open>next_state\<close> for the farmer alone and for the farmer with an item. \<open>dfs_store\<close>
  returns the address of the list it returns, as \<^verbatim>\<open>return state.history\<close> does.
\<close>

record store =
  dict_at :: "nat \<Rightarrow> (string \<times> Bank) list"
  list_at :: "nat \<Rightarrow> move list"
  next_addr :: nat

record GameState_obj =
  positions_ref :: nat
  history_ref :: nat

definition GameState_copy :: "GameState_obj \<Rightarrow> store \<Rightarrow> GameState_obj \<times> store" where
  "GameState_copy self s =
     (\<lparr>positions_ref = next_addr s, history_ref = Suc (next_addr s)\<rparr>,
      s\<lparr>dict_at := (dict_at s)(next_addr s := dict_at s (positions_ref self)),
        list_at := (list_at s)(Suc (next_addr s) := list_at s (history_ref self)),
        next_addr := Suc (Suc (next_addr s))\<rparr>)"

definition dict_setitem :: "nat \<Rightarrow> string \<Rightarrow> Bank \<Rightarrow> store \<Rightarrow> store" where
  "dict_setitem r k v s = s\<lparr>dict_at := (dict_at s)(r := AList.update k v (dict_at s r))\<rparr>"

definition list_append :: "nat \<Rightarrow> move \<Rightarrow> store \<Rightarrow> store" where
  "list_append r x s = s\<lparr>list_at := (list_at s)(r := list_at s r @ [x])\<rparr>"

definition truthy_ref :: "store \<Rightarrow> nat option \<Rightarrow> bool" where
  "truthy_ref s result = (case result of None \<Rightarrow> False | Some r \<Rightarrow> list_at s r \<noteq> [])"

definition next_state_alone :: "GameState_obj \<Rightarrow> Bank \<Rightarrow> store \<Rightarrow> GameState_obj \<times> store" where
  "next_state_alone state' farmer_bank s =
     (let (next_state, s1) = GameState_copy state' s;
          s2 = dict_setitem (positions_ref next_state) ''Farmer'' (opposite farmer_bank) s1;
          s3 = list_append (history_ref next_state) (''Farmer'', opposite farmer_bank) s2
      in (next_state, s3))"

definition next_state_with :: "GameState_obj \<Rightarrow> Bank \<Rightarrow> string \<Rightarrow> store \<Rightarrow> GameState_obj \<times> store" where
  "next_state_with state' farmer_bank item s =
     (let (next_state, s1) = GameState_copy state' s;
          s2 = dict_setitem (positions_ref next_state) ''Farmer'' (opposite farmer_bank) s1;
          s3 = dict_setitem (positions_ref next_state) item (opposite farmer_bank) s2;
          s4 = list_append (history_ref next_state) (item, opposite farmer_bank) s3
      in (next_state, s4))"

fun dfs_store :: "nat \<Rightarrow> GameState_obj \<Rightarrow> move set set \<Rightarrow> store
                    \<Rightarrow> error + (nat option \<times> move set set \<times> store)"
  and dfs_items_store :: "nat \<Rightarrow> GameState_obj \<Rightarrow> Bank \<Rightarrow> string list \<Rightarrow> move set set \<Rightarrow> store
                    \<Rightarrow> error + (nat option \<times> move set set \<times> store)" where
  "dfs_store 0 state' visited s = Inl RecursionError"
| "dfs_store (Suc depth) state' visited s =
     (if list_all (\<lambda>(item, pos). pos = RIGHT) (dict_at s (positions_ref state'))
      then Inr (Some (history_ref state'), visited, s)
      else
        (let state_key = set (dict_at s (positions_ref state')) in
         if state_key \<in> visited then Inr (None, visited, s)
         else
           (case map_of (dict_at s (positions_ref state')) ''Farmer'' of
              None \<Rightarrow> Inl KeyError
            | Some farmer_bank \<Rightarrow>
                (let items_with_farmer =
                       map fst (filter (\<lambda>(item, pos). pos = farmer_bank \<and> item \<noteq> ''Farmer'')
                                  (dict_at s (positions_ref state')));
                     next = next_state_alone state' farmer_bank s
                 in case u_is_valid_state (dict_at (snd next) (positions_ref (fst next))) of
                      Inl e \<Rightarrow> Inl e
                    | Inr False \<Rightarrow>
                        dfs_items_store depth state' farmer_bank items_with_farmer
                          (insert state_key visited) (snd next)
                    | Inr True \<Rightarrow>
                        (case dfs_store depth (fst next) (insert state_key visited) (snd next) of
                           Inl e \<Rightarrow> Inl e
                         | Inr (result, visited', s') \<Rightarrow>
                             if truthy_ref s' result then Inr (result, visited', s')
                             else dfs_items_store depth state' farmer_bank items_with_farmer
                                    visited' s')))))"
| "dfs_items_store depth state' farmer_bank [] visited s = Inr (None, visited, s)"
| "dfs_items_store depth state' farmer_bank (item # items) visited s =
     (let next = next_state_with state' farmer_bank item s
      in case u_is_valid_state (dict_at (snd next) (positions_ref (fst next))) of
           Inl e \<Rightarrow> Inl e
         | Inr False \<Rightarrow> dfs_items_store depth state' farmer_bank items visited (snd next)
         | Inr True \<Rightarrow>
             (case dfs_store depth (fst next) visited (snd next) of
                Inl e \<Rightarrow> Inl e
              | Inr (result, visited', s') \<Rightarrow>
                  if truthy_ref s' result then Inr (result, visited', s')
                  else dfs_items_store depth state' farmer_bank items visited' s'))"

record RiverCrossingGame_obj =
  state_obj :: GameState_obj
  move_count_obj :: int
  cached_solutions_obj :: "move set option"

datatype solve_store_result = ComputedRef "nat option" | FromCacheSet "move set"

definition solve_store :: "nat \<Rightarrow> RiverCrossingGame_obj \<Rightarrow> store
     \<Rightarrow> error + (solve_store_result \<times> RiverCrossingGame_obj \<times> store)" where
  "solve_store limit self s =
     (if cached_solutions_obj self \<noteq> None \<and> the (cached_solutions_obj self) \<noteq> {}
      then Inr (FromCacheSet (the (cached_solutions_obj self)), self, s)
      else
        (case dfs_store limit (state_obj self) {} s of
           Inl e \<Rightarrow> Inl e
         | Inr (solution, visited, s') \<Rightarrow>
             if truthy_ref s' solution
             then Inr (ComputedRef solution,
                       self\<lparr>cached_solutions_obj := Some (set (list_at s' (the solution)))\<rparr>, s')
             else Inr (ComputedRef solution, self, s')))"

subsection \<open>Replaying a move sequence\<close>

text \<open>
  A recorded move \<open>(item, bank)\<close> is carried out by \<^verbatim>\<open>make_move(item)\<close>. \<open>replay\<close>
  plays a sequence from a game with the program's own live-play functions: every move
  must be accepted by \<open>make_move\<close> and must leave a state that \<open>is_valid_state\<close>
  accepts. It returns the game reached, or \<open>None\<close> at the first move that is refused,
  raises, or leaves an invalid state.
\<close>

fun replay :: "RiverCrossingGame \<Rightarrow> move list \<Rightarrow> RiverCrossingGame option" where
  "replay self [] = Some self"
| "replay self (m # ms) =
     (case make_move (Some (fst m)) self of
        Inr (True, self') \<Rightarrow> (if is_valid_state self' = Inr True then replay self' ms else None)
      | _ \<Rightarrow> None)"

subsection \<open>Notions used in the proofs\<close>

text \<open>
  \<open>cross st fb item\<close> is the \<^verbatim>\<open>next_state\<close> that \<^verbatim>\<open>dfs\<close> builds for \<open>item\<close> when the
  farmer stands on \<open>fb\<close>; \<open>legal\<close> is \<^verbatim>\<open>_is_valid_state\<close> returning \<^verbatim>\<open>True\<close>;
  \<open>cargo_with\<close> is \<^verbatim>\<open>items_with_farmer\<close>; \<open>all_right\<close> is the goal test of \<^verbatim>\<open>dfs\<close>.
  \<open>configurations ks\<close> holds the \<^verbatim>\<open>state_key\<close> of every dictionary whose keys are
  \<open>ks\<close>.
\<close>

definition cross :: "GameState \<Rightarrow> Bank \<Rightarrow> string \<Rightarrow> GameState" where
  "cross st fb item =
     \<lparr>positions = AList.update item (opposite fb) (AList.update ''Farmer'' (opposite fb) (positions st)),
      history = history st @ [(item, opposite fb)]\<rparr>"

definition legal :: "(string \<times> Bank) list \<Rightarrow> bool" where
  "legal ps = (u_is_valid_state ps = Inr True)"

definition cargo_with :: "GameState \<Rightarrow> Bank \<Rightarrow> string list" where
  "cargo_with st fb =
     map fst (filter (\<lambda>(item, pos). pos = fb \<and> item \<noteq> ''Farmer'') (positions st))"

definition all_right :: "GameState \<Rightarrow> bool" where
  "all_right st = list_all (\<lambda>(item, pos). pos = RIGHT) (positions st)"

definition configurations :: "string list \<Rightarrow> move set set" where
  "configurations ks = (\<lambda>bs. set (zip ks bs)) ` {bs. length bs = length ks}"

text \<open>The game after the first three moves of the classic solution, nothing cached.\<close>

definition after_three_moves :: RiverCrossingGame where
  "after_three_moves =
     \<lparr>state = \<lparr>positions = [(''Farmer'', RIGHT), (''Fox'', RIGHT), (''Chicken'', RIGHT), (''Grain'', LEFT)],
               history = [(''Chicken'', RIGHT), (''Farmer'', LEFT), (''Fox'', RIGHT)]\<rparr>,
      move_count = 3,
      u_cached_solutions = None\<rparr>"

text \<open>The nine moves that \<^verbatim>\<open>solve\<close> returns for that game.\<close>

definition detour_solution :: "move list" where
  "detour_solution =
     [(''Chicken'', RIGHT), (''Farmer'', LEFT), (''Fox'', RIGHT), (''Fox'', LEFT), (''Grain'', RIGHT),
      (''Chicken'', LEFT), (''Fox'', RIGHT), (''Farmer'', LEFT), (''Chicken'', RIGHT)]"

text \<open>
  The seven moves that the first \<^verbatim>\<open>solve\<close> of a new game returns; the new game once that
  solution is cached; that game after the player has then moved the chicken across and
  rowed back and forth alone; and the game won by the seven moves, nothing cached.
\<close>

definition classic_solution :: "move list" where
  "classic_solution =
     [(''Chicken'', RIGHT), (''Farmer'', LEFT), (''Fox'', RIGHT), (''Chicken'', LEFT),
      (''Grain'', RIGHT), (''Farmer'', LEFT), (''Chicken'', RIGHT)]"

definition hinted_game :: RiverCrossingGame where
  "hinted_game = new_game\<lparr>u_cached_solutions := Some (set classic_solution)\<rparr>"

definition wandered_game :: RiverCrossingGame where
  "wandered_game =
     \<lparr>state = \<lparr>positions = [(''Farmer'', RIGHT), (''Fox'', LEFT), (''Chicken'', RIGHT), (''Grain'', LEFT)],
               history = [(''Chicken'', RIGHT), (''Farmer'', LEFT), (''Farmer'', RIGHT)]\<rparr>,
      move_count = 3,
      u_cached_solutions = Some (set classic_solution)\<rparr>"

definition won_game :: RiverCrossingGame where
  "won_game =
     \<lparr>state = \<lparr>positions = [(''Farmer'', RIGHT), (''Fox'', RIGHT), (''Chicken'', RIGHT), (''Grain'', RIGHT)],
               history = classic_solution\<rparr>,
      move_count = 7,
      u_cached_solutions = None\<rparr>"

text \<open>
  For the store: \<open>frame s s'\<close> says that \<open>s'\<close> has every object of \<open>s\<close> unchanged
  and may have new ones; \<open>state_of\<close> reads the \<^verbatim>\<open>GameState\<close> value that a pair of addresses
  stands for, \<open>game_of\<close> the game, \<open>result_of\<close> the result of \<^verbatim>\<open>solve\<close>; \<open>allocated\<close>
  says that both addresses are in use. \<open>store0\<close> and \<open>game0\<close> are a new game in a store
  that holds nothing else.
\<close>

definition frame :: "store \<Rightarrow> store \<Rightarrow> bool" where
  "frame s s' =
     (next_addr s \<le> next_addr s' \<and>
      (\<forall>a<next_addr s. dict_at s' a = dict_at s a \<and> list_at s' a = list_at s a))"

definition state_of :: "store \<Rightarrow> GameState_obj \<Rightarrow> GameState" where
  "state_of s r = \<lparr>positions = dict_at s (positions_ref r), history = list_at s (history_ref r)\<rparr>"

definition allocated :: "store \<Rightarrow> GameState_obj \<Rightarrow> bool" where
  "allocated s r = (positions_ref r < next_addr s \<and> history_ref r < next_addr s)"

definition game_of :: "store \<Rightarrow> RiverCrossingGame_obj \<Rightarrow> RiverCrossingGame" where
  "game_of s g =
     \<lparr>state = state_of s (state_obj g), move_count = move_count_obj g,
      u_cached_solutions = cached_solutions_obj g\<rparr>"

definition result_of :: "store \<Rightarrow> solve_store_result \<Rightarrow> solve_result" where
  "result_of s res =
     (case res of ComputedRef r \<Rightarrow> Computed (map_option (list_at s) r) | FromCacheSet c \<Rightarrow> FromCache c)"

definition store0 :: store where
  "store0 = \<lparr>dict_at = (\<lambda>_. [])(0 := [(''Farmer'', LEFT), (''Fox'', LEFT), (''Chicken'', LEFT), (''Grain'', LEFT)]),
             list_at = (\<lambda>_. []), next_addr = 2\<rparr>"

definition game0 :: RiverCrossingGame_obj where
  "game0 = \<lparr>state_obj = \<lparr>positions_ref = 0, history_ref = 1\<rparr>, move_count_obj = 0, cached_solutions_obj = None\<rparr>"

section \<open>Basic facts\<close>

lemma opposite_simps [simp]: "opposite LEFT = RIGHT" "opposite RIGHT = LEFT"
  by (simp_all add: opposite_def)

lemma opposite_alt: "(if b = LEFT then RIGHT else LEFT) = opposite b"
  by (simp add: opposite_def)

lemma in_items_iff:
  "x \<in> fst ` {y \<in> set ps. P y} \<longleftrightarrow> (\<exists>b. (x, b) \<in> set ps \<and> P (x, b))"
  by force

lemma update_update_same: "AList.update k v (AList.update k v ps) = AList.update k v ps"
  by (induction ps) auto

lemma map_of_Some_key: "map_of ps k = Some v \<Longrightarrow> k \<in> fst ` set ps"
  by (metis map_of_eq_None_iff option.distinct(1))

section \<open>The legality predicate\<close>

lemma u_is_valid_state_char:
  assumes "distinct (map fst ps)" and "map_of ps ''Farmer'' = Some fb"
  shows "u_is_valid_state ps =
           Inr (\<not> (map_of ps ''Fox'' = Some (opposite fb) \<and> map_of ps ''Chicken'' = Some (opposite fb)
                  \<or> map_of ps ''Chicken'' = Some (opposite fb) \<and> map_of ps ''Grain'' = Some (opposite fb)))"
  using assms by (simp add: u_is_valid_state_def opposite_alt in_items_iff Let_def)

text \<open>
  Claim C6. The legality predicate of live play, \<^verbatim>\<open>is_valid_state\<close>, and the one used to
  prune the search, \<^verbatim>\<open>_is_valid_state\<close>, return the same result on the positions of every
  game: the same boolean when the farmer is in the mapping, and \<^verbatim>\<open>KeyError\<close> from both
  when he is not.
\<close>

theorem is_valid_state_agrees:
  "is_valid_state self = u_is_valid_state (positions (state self))"
  by (simp add: is_valid_state_def u_is_valid_state_def get_items_at_bank_def opposite_alt
      in_items_iff Let_def split: option.splits)

text \<open>
  Claim C7. For a dictionary of positions in which the farmer stands on bank \<open>fb\<close>, the
  legality predicate returns false exactly when Fox and Chicken, or Chicken and Grain,
  are both on the bank opposite \<open>fb\<close>. In particular, with Fox and Chicken both opposite
  the farmer it returns false, and once the farmer is moved onto their bank it returns
  true.
\<close>

theorem u_is_valid_state_iff:
  assumes "distinct (map fst ps)" and "map_of ps ''Farmer'' = Some fb"
  shows "u_is_valid_state ps =
           Inr (\<not> (map_of ps ''Fox'' = Some (opposite fb) \<and> map_of ps ''Chicken'' = Some (opposite fb)
                  \<or> map_of ps ''Chicken'' = Some (opposite fb) \<and> map_of ps ''Grain'' = Some (opposite fb)))
         \<and> (map_of ps ''Fox'' = Some (opposite fb) \<and> map_of ps ''Chicken'' = Some (opposite fb)
              \<longrightarrow> u_is_valid_state ps = Inr False
                \<and> u_is_valid_state (AList.update ''Farmer'' (opposite fb) ps) = Inr True)"
proof -
  have 2: "u_is_valid_state (AList.update ''Farmer'' (opposite fb) ps) = Inr True"
    if "map_of ps ''Chicken'' = Some (opposite fb)"
  proof -
    let ?ps = "AList.update ''Farmer'' (opposite fb) ps"
    have "distinct (map fst ?ps)"
      using assms(1) by (simp add: distinct_update)
    moreover have "map_of ?ps ''Farmer'' = Some (opposite fb)"
      by (simp add: update_conv')
    moreover have "map_of ?ps ''Chicken'' \<noteq> Some (opposite (opposite fb))"
      using that by (cases fb) (simp_all add: update_conv')
    ultimately show ?thesis
      by (simp add: u_is_valid_state_char)
  qed
  from u_is_valid_state_char [OF assms] 2 show ?thesis by simp
qed

theorem u_is_valid_state_iff_witness:
  "u_is_valid_state [(''Farmer'', LEFT), (''Fox'', RIGHT), (''Chicken'', RIGHT), (''Grain'', LEFT)] = Inr False
   \<and> u_is_valid_state [(''Farmer'', RIGHT), (''Fox'', RIGHT), (''Chicken'', RIGHT), (''Grain'', LEFT)] = Inr True"
  using u_is_valid_state_iff
    [of "[(''Farmer'', LEFT), (''Fox'', RIGHT), (''Chicken'', RIGHT), (''Grain'', LEFT)]" LEFT]
  by simp

section \<open>Moves\<close>

text \<open>
  Claim C10. In every game whose positions contain the farmer (on bank \<open>fb\<close>),
  \<^verbatim>\<open>make_move('Farmer')\<close> does exactly what \<^verbatim>\<open>make_move(None)\<close> does: both succeed, move
  only the farmer to the opposite bank, and append \<^verbatim>\<open>('Farmer', new bank)\<close> to the history.
\<close>

theorem make_move_farmer_is_alone:
  assumes "map_of (positions (state self)) ''Farmer'' = Some fb"
  shows "make_move (Some ''Farmer'') self = make_move None self
       \<and> make_move None self =
           Inr (True,
             self\<lparr>state := \<lparr>positions = AList.update ''Farmer'' (opposite fb) (positions (state self)),
                            history = history (state self) @ [(''Farmer'', opposite fb)]\<rparr>,
                  move_count := move_count self + 1\<rparr>)"
  using assms
  by (auto simp add: make_move_def item_given_def Let_def update_update_same map_of_Some_key)

theorem make_move_farmer_is_alone_witness:
  "make_move (Some ''Farmer'') new_game = make_move None new_game
   \<and> make_move None new_game =
       Inr (True,
         \<lparr>state = \<lparr>positions = [(''Farmer'', RIGHT), (''Fox'', LEFT), (''Chicken'', LEFT), (''Grain'', LEFT)],
                   history = [(''Farmer'', RIGHT)]\<rparr>,
          move_count = 1,
          u_cached_solutions = None\<rparr>)"
  using make_move_farmer_is_alone [of new_game LEFT]
  by (simp add: new_game_def)

text \<open>
  Claim C4, as stated, fails for the empty name: \<^verbatim>\<open>make_move('')\<close> on a new game succeeds
  (the farmer crosses alone), although the empty string is not a key of the positions.
\<close>

theorem make_move_empty_name_succeeds:
  "make_move (Some '''') new_game =
     Inr (True,
       \<lparr>state = \<lparr>positions = [(''Farmer'', RIGHT), (''Fox'', LEFT), (''Chicken'', LEFT), (''Grain'', LEFT)],
                 history = [(''Farmer'', RIGHT)]\<rparr>,
        move_count = 1,
        u_cached_solutions = None\<rparr>)
   \<and> '''' \<notin> fst ` set (positions (state new_game))"
  by (simp add: make_move_def item_given_def new_game_def)

text \<open>
  Claim C4, amended. In every game whose positions contain the farmer (on bank \<open>fb\<close>),
  and for every non-empty item name, \<^verbatim>\<open>make_move\<close> returns \<^verbatim>\<open>True\<close> if and only if the item is
  a key of the positions and is on the farmer's bank; it then moves the farmer and the
  item to the opposite bank and records the move. Otherwise it returns \<^verbatim>\<open>False\<close> and the
  game (positions, history, move count) is unchanged.
\<close>

theorem make_move_named:
  assumes "item \<noteq> []" and "map_of (positions (state self)) ''Farmer'' = Some fb"
  shows "make_move (Some item) self =
     (if item \<in> fst ` set (positions (state self)) \<and> map_of (positions (state self)) item = Some fb
      then Inr (True,
             self\<lparr>state := \<lparr>positions = AList.update item (opposite fb)
                                          (AList.update ''Farmer'' (opposite fb) (positions (state self))),
                            history = history (state self) @ [(item, opposite fb)]\<rparr>,
                  move_count := move_count self + 1\<rparr>)
      else Inr (False, self))"
  using assms
  by (auto simp add: make_move_def item_given_def Let_def)

theorem make_move_named_witness:
  "make_move (Some ''Grain'') after_three_moves = Inr (False, after_three_moves)
   \<and> make_move (Some ''Wolf'') after_three_moves = Inr (False, after_three_moves)
   \<and> make_move (Some ''Fox'') after_three_moves =
       Inr (True,
         \<lparr>state = \<lparr>positions = [(''Farmer'', LEFT), (''Fox'', LEFT), (''Chicken'', RIGHT), (''Grain'', LEFT)],
                   history = [(''Chicken'', RIGHT), (''Farmer'', LEFT), (''Fox'', RIGHT), (''Fox'', LEFT)]\<rparr>,
          move_count = 4,
          u_cached_solutions = None\<rparr>)"
  using make_move_named [of "''Grain''" after_three_moves RIGHT]
    make_move_named [of "''Wolf''" after_three_moves RIGHT]
    make_move_named [of "''Fox''" after_three_moves RIGHT]
  by (simp add: after_three_moves_def)

section \<open>The search, unfolded\<close>



lemma u_is_valid_state_legal:
  "''Farmer'' \<in> fst ` set ps \<Longrightarrow> u_is_valid_state ps = Inr (legal ps)"
  by (cases "map_of ps ''Farmer''")
     (auto simp add: legal_def u_is_valid_state_def Let_def map_of_eq_None_iff)

lemma farmer_in_cross: "''Farmer'' \<in> fst ` set (positions (cross st fb item))"
  by (simp add: cross_def dom_update)

lemma u_is_valid_state_cross:
  "u_is_valid_state (positions (cross st fb item)) = Inr (legal (positions (cross st fb item)))"
  by (rule u_is_valid_state_legal) (rule farmer_in_cross)

lemma cross_farmer:
  "cross st fb ''Farmer'' =
     \<lparr>positions = AList.update ''Farmer'' (opposite fb) (positions st),
      history = history st @ [(''Farmer'', opposite fb)]\<rparr>"
  by (simp add: cross_def update_update_same)

lemma dfs_items_Cons:
  "dfs_items d st fb (item # items) V =
     (if legal (positions (cross st fb item))
      then (case dfs d (cross st fb item) V of
              Inl e \<Rightarrow> Inl e
            | Inr (result, V') \<Rightarrow>
                if truthy result then Inr (result, V') else dfs_items d st fb items V')
      else dfs_items d st fb items V)"
  using u_is_valid_state_cross [of st fb item]
  by (simp add: cross_def [symmetric] Let_def del: GameState.simps)

lemma dfs_Suc:
  "dfs (Suc d) st V =
     (if all_right st then Inr (Some (history st), V)
      else if set (positions st) \<in> V then Inr (None, V)
      else (case map_of (positions st) ''Farmer'' of
              None \<Rightarrow> Inl KeyError
            | Some fb \<Rightarrow>
                dfs_items d st fb (''Farmer'' # cargo_with st fb) (insert (set (positions st)) V)))"
  using u_is_valid_state_cross [of st _ "''Farmer''"]
  by (simp add: dfs_items_Cons cross_farmer [symmetric] all_right_def cargo_with_def Let_def
      del: GameState.simps dfs_items.simps split: option.splits)


lemma dfs_0: "dfs 0 st V = Inl RecursionError"
  by simp

lemma dfs_items_Nil: "dfs_items d st fb [] V = Inr (None, V)"
  by simp

text \<open>
  Induction over the calls of the search: on the number of frames, and inside a frame on
  the items still to try.
\<close>

lemma dfs_induct [case_names out_of_frames enter no_items try_item]:
  assumes out_of_frames: "\<And>st V. P 0 st V"
    and enter: "\<And>d st V.
        (\<And>fb. \<not> all_right st \<Longrightarrow> set (positions st) \<notin> V \<Longrightarrow>
               map_of (positions st) ''Farmer'' = Some fb \<Longrightarrow>
               Q d st fb (''Farmer'' # cargo_with st fb) (insert (set (positions st)) V))
        \<Longrightarrow> P (Suc d) st V"
    and no_items: "\<And>d st fb V. Q d st fb [] V"
    and try_item: "\<And>d st fb item items V.
        (legal (positions (cross st fb item)) \<Longrightarrow> P d (cross st fb item) V) \<Longrightarrow>
        (\<not> legal (positions (cross st fb item)) \<Longrightarrow> Q d st fb items V) \<Longrightarrow>
        (\<And>r V'. legal (positions (cross st fb item)) \<Longrightarrow>
                 dfs d (cross st fb item) V = Inr (r, V') \<Longrightarrow> \<not> truthy r \<Longrightarrow>
                 Q d st fb items V')
        \<Longrightarrow> Q d st fb (item # items) V"
  shows "P d st V" and "Q d st fb items V"
proof -
  have QP: "Q d st fb items V" if "\<And>st V. P d st V" for d st fb items V
    using that by (induction items arbitrary: V) (auto intro: no_items try_item)
  have PA: "P d st V" for d st V
    by (induction d arbitrary: st V) (auto intro: out_of_frames enter QP)
  show "P d st V" by (rule PA)
  show "Q d st fb items V" by (rule QP) (rule PA)
qed

declare dfs.simps [simp del] dfs_items.simps [simp del]

section \<open>More frames change nothing\<close>

lemma dfs_mono:
  "dfs d st V \<noteq> Inl RecursionError \<Longrightarrow> dfs (d + k) st V = dfs d st V"
  "dfs_items d st fb items V \<noteq> Inl RecursionError \<Longrightarrow>
     dfs_items (d + k) st fb items V = dfs_items d st fb items V"
proof (induction d st V and d st fb items V rule: dfs_induct)
  case (out_of_frames st V)
  then show ?case by (simp add: dfs_0)
next
  case (enter d st V)
  then show ?case
    by (simp add: dfs_Suc split: option.splits if_splits)
next
  case (no_items d st fb V)
  then show ?case by (simp add: dfs_items_Nil)
next
  case (try_item d st fb item items V)
  show ?case
  proof (cases "legal (positions (cross st fb item))")
    case False
    with try_item show ?thesis by (simp add: dfs_items_Cons)
  next
    case True
    show ?thesis
    proof (cases "dfs d (cross st fb item) V")
      case (Inl e)
      with True try_item.prems have "e \<noteq> RecursionError"
        by (auto simp add: dfs_items_Cons)
      with Inl True try_item.IH(1) show ?thesis
        by (simp add: dfs_items_Cons)
    next
      case (Inr p)
      obtain r V' where p: "p = (r, V')" by (cases p)
      from Inr True try_item.IH(1) have "dfs (d + k) (cross st fb item) V = Inr p"
        by simp
      with Inr True p try_item.IH(3) [of r V'] try_item.prems show ?thesis
        by (auto simp add: dfs_items_Cons)
    qed
  qed
qed

section \<open>The visited set only grows\<close>

lemma dfs_subset:
  "dfs d st V = Inr (r, V') \<Longrightarrow> V \<subseteq> V'"
  "dfs_items d st fb items V = Inr (r, V') \<Longrightarrow> V \<subseteq> V'"
proof (induction d st V and d st fb items V arbitrary: r V' and r V' rule: dfs_induct)
  case (out_of_frames st V)
  then show ?case by (simp add: dfs_0)
next
  case (enter d st V)
  then show ?case
    by (fastforce simp add: dfs_Suc split: option.splits if_splits)
next
  case (no_items d st fb V)
  then show ?case by (simp add: dfs_items_Nil)
next
  case (try_item d st fb item items V)
  show ?case
  proof (cases "legal (positions (cross st fb item))")
    case False
    with try_item show ?thesis by (simp add: dfs_items_Cons)
  next
    case True
    with try_item.prems obtain r1 V1 where 1: "dfs d (cross st fb item) V = Inr (r1, V1)"
      by (auto simp add: dfs_items_Cons split: sum.splits)
    with True try_item.IH(1) have "V \<subseteq> V1" by simp
    moreover have "V1 \<subseteq> V'"
      using try_item.prems True 1 try_item.IH(3) [of r1 V1]
      by (auto simp add: dfs_items_Cons split: if_splits)
    ultimately show ?thesis by simp
  qed
qed


section \<open>What a found solution looks like\<close>

lemma dfs_prefix:
  "dfs d st V = Inr (Some r, V') \<Longrightarrow> prefix (history st) r"
  "dfs_items d st fb items V = Inr (Some r, V') \<Longrightarrow> strict_prefix (history st) r"
proof (induction d st V and d st fb items V arbitrary: r V' and r V' rule: dfs_induct)
  case (out_of_frames st V)
  then show ?case by (simp add: dfs_0)
next
  case (enter d st V)
  then show ?case
    by (fastforce simp add: dfs_Suc split: option.splits if_splits)
next
  case (no_items d st fb V)
  then show ?case by (simp add: dfs_items_Nil)
next
  case (try_item d st fb item items V)
  show ?case
  proof (cases "legal (positions (cross st fb item))")
    case False
    with try_item show ?thesis by (simp add: dfs_items_Cons)
  next
    case True
    with try_item.prems obtain r1 V1 where 1: "dfs d (cross st fb item) V = Inr (r1, V1)"
      by (auto simp add: dfs_items_Cons split: sum.splits)
    show ?thesis
    proof (cases "truthy r1")
      case False
      with try_item.prems True 1 try_item.IH(3) [of r1 V1] show ?thesis
        by (simp add: dfs_items_Cons)
    next
      case t: True
      with try_item.prems True 1 have "r1 = Some r"
        by (simp add: dfs_items_Cons)
      with 1 True try_item.IH(1) have "prefix (history (cross st fb item)) r"
        by simp
      then show ?thesis
        by (auto simp add: cross_def prefix_def strict_prefix_def)
    qed
  qed
qed



lemma keys_cross:
  assumes "''Farmer'' \<in> fst ` set (positions st)" and "item \<in> fst ` set (positions st)"
  shows "map fst (positions (cross st fb item)) = map fst (positions st)"
  using assms by (simp add: cross_def update_keys dom_update)




section \<open>Enough frames: the search returns\<close>

lemma UNIV_Bank: "(UNIV :: Bank set) = {LEFT, RIGHT}"
  by (auto intro: Bank.exhaust)

lemma finite_Bank: "finite (UNIV :: Bank set)"
  by (simp add: UNIV_Bank)

lemma card_Bank: "card (UNIV :: Bank set) = 2"
  by (simp add: UNIV_Bank)

lemma finite_Bank_lists: "finite {bs :: Bank list. length bs = n}"
  using finite_lists_length_eq [OF finite_Bank, of n] by simp

lemma card_Bank_lists: "card {bs :: Bank list. length bs = n} = 2 ^ n"
  using card_lists_length_eq [OF finite_Bank, of n] by (simp add: card_Bank)

lemma finite_configurations: "finite (configurations ks)"
  by (simp add: configurations_def finite_Bank_lists)

lemma card_configurations: "card (configurations ks) \<le> 2 ^ length ks"
  unfolding configurations_def
  using card_image_le [OF finite_Bank_lists, of "\<lambda>bs. set (zip ks bs)" "length ks"]
  by (simp add: card_Bank_lists)

lemma state_key_configuration: "set ps \<in> configurations (map fst ps)"
proof -
  have "set ps = set (zip (map fst ps) (map snd ps))"
    by (simp add: zip_map_fst_snd)
  then show ?thesis
    unfolding configurations_def by (metis (mono_tags, lifting) image_eqI length_map mem_Collect_eq)
qed

lemma dfs_returns:
  "card (configurations (map fst (positions st)) - V) < d \<Longrightarrow>
     ''Farmer'' \<in> fst ` set (positions st) \<Longrightarrow> \<exists>r V'. dfs d st V = Inr (r, V')"
  "card (configurations (map fst (positions st)) - V) < d \<Longrightarrow>
     ''Farmer'' \<in> fst ` set (positions st) \<Longrightarrow> set items \<subseteq> fst ` set (positions st) \<Longrightarrow>
     \<exists>r V'. dfs_items d st fb items V = Inr (r, V')"
proof (induction d st V and d st fb items V rule: dfs_induct)
  case (out_of_frames st V)
  then show ?case by simp
next
  case (enter d st V)
  let ?C = "configurations (map fst (positions st))"
  show ?case
  proof (cases "all_right st \<or> set (positions st) \<in> V")
    case True
    then show ?thesis by (auto simp add: dfs_Suc)
  next
    case False
    from enter.prems(2) obtain fb where fb: "map_of (positions st) ''Farmer'' = Some fb"
      by (metis map_of_eq_None_iff not_Some_eq)
    have "set (positions st) \<in> ?C - V"
      using False by (simp add: state_key_configuration)
    then have "card (?C - V - {set (positions st)}) < card (?C - V)"
      by (intro card_Diff1_less) (simp_all add: finite_configurations)
    moreover have "?C - insert (set (positions st)) V = ?C - V - {set (positions st)}"
      by auto
    ultimately have less: "card (?C - insert (set (positions st)) V) < d"
      using enter.prems(1) by simp
    have "set (''Farmer'' # cargo_with st fb) \<subseteq> fst ` set (positions st)"
      using enter.prems(2) by (auto simp add: cargo_with_def)
    with enter.IH [of fb] False fb less enter.prems(2) show ?thesis
      by (simp add: dfs_Suc)
  qed
next
  case (no_items d st fb V)
  then show ?case by (simp add: dfs_items_Nil)
next
  case (try_item d st fb item items V)
  let ?next = "cross st fb item"
  let ?C = "configurations (map fst (positions st))"
  show ?case
  proof (cases "legal (positions ?next)")
    case False
    with try_item.prems try_item.IH(2) show ?thesis
      by (simp add: dfs_items_Cons)
  next
    case True
    have keys: "map fst (positions ?next) = map fst (positions st)"
      using try_item.prems(2,3) by (simp add: keys_cross)
    then have "''Farmer'' \<in> fst ` set (positions ?next)"
      by (rule_tac farmer_in_cross)
    with try_item.IH(1) [OF True] keys try_item.prems(1)
    obtain r1 V1 where 1: "dfs d ?next V = Inr (r1, V1)"
      by auto
    show ?thesis
    proof (cases "truthy r1")
      case t: True
      with True 1 show ?thesis by (simp add: dfs_items_Cons)
    next
      case False
      from 1 have "V \<subseteq> V1" by (rule dfs_subset)
      then have "card (?C - V1) \<le> card (?C - V)"
        by (intro card_mono) (auto simp add: finite_configurations)
      with try_item.IH(3) [OF True 1 False] try_item.prems True 1 False show ?thesis
        by (simp add: dfs_items_Cons)
    qed
  qed
qed


section \<open>Properties of \<^verbatim>\<open>solve\<close>\<close>

lemma solve_no_cache:
  "u_cached_solutions self = None \<Longrightarrow>
     solve limit self =
       (case dfs limit (state self) {} of
          Inl e \<Rightarrow> Inl e
        | Inr (solution, visited) \<Rightarrow>
            if truthy solution
            then Inr (Computed solution, self\<lparr>u_cached_solutions := Some (set (the solution))\<rparr>)
            else Inr (Computed solution, self))"
  by (simp add: solve_def)

lemma solve_mono:
  assumes "solve limit self \<noteq> Inl RecursionError"
  shows "solve (limit + k) self = solve limit self"
proof (cases "u_cached_solutions self \<noteq> None \<and> the (u_cached_solutions self) \<noteq> {}")
  case True
  then show ?thesis by (simp add: solve_def)
next
  case False
  with assms have "dfs limit (state self) {} \<noteq> Inl RecursionError"
    by (auto simp add: solve_def)
  then have "dfs (limit + k) (state self) {} = dfs limit (state self) {}"
    by (rule dfs_mono)
  then show ?thesis by (simp add: solve_def)
qed

lemma solve_8_new_game:
  "solve 8 new_game = Inr (Computed (Some classic_solution), hinted_game)"
  by code_simp

lemma solve_new_game_eq:
  assumes "8 \<le> limit"
  shows "solve limit new_game = Inr (Computed (Some classic_solution), hinted_game)"
proof -
  have "solve (8 + (limit - 8)) new_game = solve 8 new_game"
    by (rule solve_mono) (simp add: solve_8_new_game)
  with assms show ?thesis by (simp add: solve_8_new_game)
qed

lemma replay_classic: "replay new_game classic_solution = Some won_game"
  by code_simp

lemma is_won_won_game: "is_won won_game"
  by code_simp

text \<open>
  Claim C1. On a newly constructed game, with at least eight stack frames available, the
  first call of \<^verbatim>\<open>solve\<close> returns the seven moves chicken across, farmer back, fox
  across, chicken back, grain across, farmer back, chicken across. The length 7 is odd
  and at least 7; replayed from the new game every move is accepted and leaves a valid
  state, and the game reached has every entity on the right bank.
\<close>

theorem solve_new_game:
  assumes "8 \<le> limit"
  shows "\<exists>self' final.
           solve limit new_game = Inr (Computed (Some classic_solution), self')
         \<and> length classic_solution = 7 \<and> odd (length classic_solution) \<and> 7 \<le> length classic_solution
         \<and> replay new_game classic_solution = Some final \<and> is_won final"
  using solve_new_game_eq [OF assms] replay_classic is_won_won_game
  by (simp add: classic_solution_def)

theorem solve_new_game_witness:
  "(8::nat) \<le> 1000 \<and>
   (\<exists>self' final.
           solve 1000 new_game = Inr (Computed (Some classic_solution), self')
         \<and> length classic_solution = 7 \<and> odd (length classic_solution) \<and> 7 \<le> length classic_solution
         \<and> replay new_game classic_solution = Some final \<and> is_won final)"
  using solve_new_game [of 1000] by simp

lemma card_classic: "card (set classic_solution) = 5"
  by code_simp

lemma solve_hinted: "solve limit hinted_game = Inr (FromCache (set classic_solution), hinted_game)"
  by (simp add: solve_def hinted_game_def classic_solution_def)

text \<open>
  Claim C2 does not hold of the code. The first \<^verbatim>\<open>solve\<close> of a new game returns seven
  moves and caches them as a set; two of the moves occur twice, so the set has five
  elements. The second call, on the unchanged game, returns a list of that set: whatever
  the order, it has five moves, not seven.
\<close>

theorem solve_twice_new_game:
  assumes "8 \<le> limit"
  shows "solve limit new_game = Inr (Computed (Some classic_solution), hinted_game)
       \<and> length classic_solution = 7
       \<and> state hinted_game = state new_game
       \<and> solve limit hinted_game = Inr (FromCache (set classic_solution), hinted_game)
       \<and> (\<forall>xs. may_return (FromCache (set classic_solution)) (Some xs) \<longrightarrow> length xs = 5)"
proof -
  have "length xs = 5" if "may_return (FromCache (set classic_solution)) (Some xs)" for xs
  proof -
    from that have "distinct xs" and "set xs = set classic_solution"
      by (simp_all add: may_return_def)
    then show ?thesis
      using card_classic distinct_card [of xs] by simp
  qed
  with solve_new_game_eq [OF assms] solve_hinted show ?thesis
    by (simp add: hinted_game_def classic_solution_def)
qed

theorem solve_twice_new_game_witness:
  "(8::nat) \<le> 1000
   \<and> solve 1000 new_game = Inr (Computed (Some classic_solution), hinted_game)
   \<and> solve 1000 hinted_game = Inr (FromCache (set classic_solution), hinted_game)
   \<and> may_return (FromCache (set classic_solution))
       (Some [(''Chicken'', RIGHT), (''Farmer'', LEFT), (''Fox'', RIGHT), (''Chicken'', LEFT), (''Grain'', RIGHT)])
   \<and> length [(''Chicken'', RIGHT), (''Farmer'', LEFT), (''Fox'', RIGHT), (''Chicken'', LEFT), (''Grain'', RIGHT)] = (5::nat)"
proof -
  have "may_return (FromCache (set classic_solution))
       (Some [(''Chicken'', RIGHT), (''Farmer'', LEFT), (''Fox'', RIGHT), (''Chicken'', LEFT), (''Grain'', RIGHT)])"
    by (auto simp add: may_return_def classic_solution_def)
  with solve_twice_new_game [of 1000] show ?thesis by simp
qed



lemma solve_Computed:
  assumes "u_cached_solutions self = None" and "solve limit self = Inr (res, self')"
  obtains sol V where "res = Computed sol" and "dfs limit (state self) {} = Inr (sol, V)"
  using assms by (auto simp add: solve_no_cache split: sum.splits if_splits)

lemma solve_after_three_moves:
  "solve 1000 after_three_moves =
     Inr (Computed (Some detour_solution),
          after_three_moves\<lparr>u_cached_solutions := Some (set detour_solution)\<rparr>)"
  by code_simp




text \<open>
  The path of \<^verbatim>\<open>solve\<close> that runs the search. When nothing is cached, a sequence returned by
  \<^verbatim>\<open>solve\<close> begins with the moves recorded in the history. If the state is not yet the goal
  the sequence is longer than the history, so its element at position \<^verbatim>\<open>len(history)\<close> is
  the first new move; if the state is the goal, \<^verbatim>\<open>solve\<close> returns exactly the history.
\<close>

theorem solve_extends_history:
  assumes "u_cached_solutions self = None" and "solve limit self = Inr (res, self')"
  shows "\<exists>sol. res = Computed sol
           \<and> (is_won self \<longrightarrow> sol = Some (history (state self)))
           \<and> (\<forall>r. sol = Some r \<longrightarrow>
                 prefix (history (state self)) r
                 \<and> (\<not> is_won self \<longrightarrow> length (history (state self)) < length r))"
proof -
  from assms obtain sol V where sol: "res = Computed sol"
    and dfs: "dfs limit (state self) {} = Inr (sol, V)"
    by (auto elim: solve_Computed)
  from dfs obtain d where limit: "limit = Suc d"
    by (cases limit) (simp_all add: dfs_0)
  have "sol = Some (history (state self))" if "is_won self"
    using that dfs by (simp add: limit dfs_Suc is_won_def all_right_def)
  moreover have "prefix (history (state self)) r" if "sol = Some r" for r
    using that dfs dfs_prefix(1) by simp
  moreover have "length (history (state self)) < length r"
    if "sol = Some r" and "\<not> is_won self" for r
  proof -
    from that dfs obtain fb where
      "dfs_items d (state self) fb (''Farmer'' # cargo_with (state self) fb)
         (insert (set (positions (state self))) {}) = Inr (Some r, V)"
      by (auto simp add: limit dfs_Suc is_won_def all_right_def split: option.splits if_splits)
    then have "strict_prefix (history (state self)) r"
      by (rule dfs_prefix(2))
    then show ?thesis
      by (auto simp add: strict_prefix_def prefix_def)
  qed
  ultimately show ?thesis using sol by blast
qed

theorem solve_extends_history_witness:
  "solve 1000 after_three_moves =
     Inr (Computed (Some detour_solution),
          after_three_moves\<lparr>u_cached_solutions := Some (set detour_solution)\<rparr>)
   \<and> \<not> is_won after_three_moves
   \<and> prefix (history (state after_three_moves)) detour_solution
   \<and> length (history (state after_three_moves)) < length detour_solution
   \<and> is_won won_game
   \<and> (\<exists>self'. solve 1000 won_game = Inr (Computed (Some (history (state won_game))), self'))"
proof -
  have 2: "\<not> is_won after_three_moves" "is_won won_game"
    by code_simp+
  obtain res self' where 3: "solve 1000 won_game = Inr (res, self')"
    by (simp add: solve_def won_game_def classic_solution_def dfs_Suc all_right_def
        eval_nat_numeral truthy_def)
  from solve_extends_history [OF _ solve_after_three_moves] solve_extends_history [OF _ 3] 2 3
    solve_after_three_moves
  show ?thesis
    by (auto simp add: after_three_moves_def won_game_def)
qed

text \<open>
  Claim C5 does not hold of the code: the sequence returned by \<^verbatim>\<open>solve\<close> should begin with
  the moves recorded in the history, as it does on the path above and as the caller's
  \<^verbatim>\<open>solution[len(self.state.history)]\<close> expects, but the path that returns the cache breaks
  it. After a first \<^verbatim>\<open>solve\<close> on the new game the player moves the chicken across, rows
  back alone and across alone again. The next \<^verbatim>\<open>solve\<close> returns a list of the cached set,
  which does not contain the recorded move \<^verbatim>\<open>('Farmer', RIGHT)\<close>: no such list begins with
  the history.
\<close>

theorem solve_wandered_game_from_cache:
  "solve 1000 new_game = Inr (Computed (Some classic_solution), hinted_game)
   \<and> replay hinted_game [(''Chicken'', RIGHT), (''Farmer'', LEFT), (''Farmer'', RIGHT)] = Some wandered_game
   \<and> solve 1000 wandered_game = Inr (FromCache (set classic_solution), wandered_game)
   \<and> (''Farmer'', RIGHT) \<in> set (history (state wandered_game))
   \<and> (''Farmer'', RIGHT) \<notin> set classic_solution"
  by code_simp

text \<open>
  Claim C8. The search terminates. As soon as more stack frames are available than there
  are assignments of the entities to the two banks, \<open>2 ^ n\<close> for \<open>n\<close> entities, \<^verbatim>\<open>solve\<close>
  never runs out of frames, and on every game whose positions contain the farmer it
  returns (a solution, or none). Every frame that goes on adds its own configuration to
  the visited set, so at most \<open>2 ^ n\<close> frames plus one that stops at once are ever open.
  For the four entities of the puzzle 17 frames are enough.
\<close>

theorem solve_returns:
  assumes "2 ^ length (positions (state self)) < limit"
  shows "solve limit self \<noteq> Inl RecursionError
       \<and> (''Farmer'' \<in> fst ` set (positions (state self))
            \<longrightarrow> (\<exists>res self'. solve limit self = Inr (res, self')))"
proof -
  have "card (configurations (map fst (positions (state self))) - {})
          \<le> 2 ^ length (positions (state self))"
    using card_configurations [of "map fst (positions (state self))"] by simp
  with assms have less: "card (configurations (map fst (positions (state self))) - {}) < limit"
    by simp
  have 1: "\<exists>res self'. solve limit self = Inr (res, self')"
    if "''Farmer'' \<in> fst ` set (positions (state self))"
    using dfs_returns(1) [OF less that] by (auto simp add: solve_def)
  have 2: "solve limit self \<noteq> Inl RecursionError"
    if "''Farmer'' \<notin> fst ` set (positions (state self))"
  proof -
    from assms obtain d where "limit = Suc d"
      by (cases limit) simp_all
    moreover from that have "map_of (positions (state self)) ''Farmer'' = None"
      by (simp add: map_of_eq_None_iff)
    ultimately have "dfs limit (state self) {} \<noteq> Inl RecursionError"
      by (simp add: dfs_Suc)
    then show ?thesis
      by (auto simp add: solve_def split: sum.splits)
  qed
  show ?thesis
  proof (cases "''Farmer'' \<in> fst ` set (positions (state self))")
    case True
    with 1 show ?thesis by auto
  next
    case False
    with 2 show ?thesis by simp
  qed
qed

theorem solve_returns_witness:
  "(2::nat) ^ length (positions (state new_game)) < 17
   \<and> ''Farmer'' \<in> fst ` set (positions (state new_game))
   \<and> (\<exists>res self'. solve 17 new_game = Inr (res, self'))"
  using solve_returns [of new_game 17] by (simp add: new_game_def)

section \<open>The search writes only into its own copies\<close>

lemma frame_refl: "frame s s"
  by (simp add: frame_def)

lemma frame_trans: "frame s s' \<Longrightarrow> frame s' s'' \<Longrightarrow> frame s s''"
  by (auto simp add: frame_def)

lemma frame_state_of: "frame s s' \<Longrightarrow> allocated s r \<Longrightarrow> state_of s' r = state_of s r"
  by (simp add: frame_def allocated_def state_of_def)

lemma frame_allocated: "frame s s' \<Longrightarrow> allocated s r \<Longrightarrow> allocated s' r"
  by (auto simp add: frame_def allocated_def)

lemma next_state_alone_with:
  "next_state_alone r fb s = next_state_with r fb ''Farmer'' s"
  by (simp add: next_state_alone_def next_state_with_def GameState_copy_def dict_setitem_def
      update_update_same)

lemma frame_next_state_with: "frame s (snd (next_state_with r fb item s))"
  by (simp add: next_state_with_def GameState_copy_def dict_setitem_def list_append_def frame_def)

lemma allocated_next_state_with:
  "allocated (snd (next_state_with r fb item s)) (fst (next_state_with r fb item s))"
  by (simp add: next_state_with_def GameState_copy_def dict_setitem_def list_append_def
      allocated_def)

lemma state_of_next_state_with:
  "state_of (snd (next_state_with r fb item s)) (fst (next_state_with r fb item s))
     = cross (state_of s r) fb item"
  by (simp add: next_state_with_def GameState_copy_def dict_setitem_def list_append_def
      state_of_def cross_def)

lemma positions_next_state_with:
  "dict_at (snd (next_state_with r fb item s)) (positions_ref (fst (next_state_with r fb item s)))
     = positions (cross (state_of s r) fb item)"
  by (simp add: next_state_with_def GameState_copy_def dict_setitem_def list_append_def
      state_of_def cross_def)

lemma truthy_map_list_at: "truthy (map_option (list_at s) r) = truthy_ref s r"
  by (simp add: truthy_def truthy_ref_def split: option.splits)

lemma dfs_items_store_Cons:
  "dfs_items_store d r fb (item # items) V s =
     (if legal (positions (cross (state_of s r) fb item))
      then (case dfs_store d (fst (next_state_with r fb item s)) V (snd (next_state_with r fb item s)) of
              Inl e \<Rightarrow> Inl e
            | Inr (result, V', s') \<Rightarrow>
                if truthy_ref s' result then Inr (result, V', s')
                else dfs_items_store d r fb items V' s')
      else dfs_items_store d r fb items V (snd (next_state_with r fb item s)))"
  using u_is_valid_state_cross [of "state_of s r" fb item]
  by (simp add: positions_next_state_with Let_def)

lemma dfs_store_Suc:
  "dfs_store (Suc d) r V s =
     (if all_right (state_of s r) then Inr (Some (history_ref r), V, s)
      else if set (positions (state_of s r)) \<in> V then Inr (None, V, s)
      else (case map_of (positions (state_of s r)) ''Farmer'' of
              None \<Rightarrow> Inl KeyError
            | Some fb \<Rightarrow>
                dfs_items_store d r fb (''Farmer'' # cargo_with (state_of s r) fb)
                  (insert (set (positions (state_of s r))) V) s))"
  using u_is_valid_state_cross [of "state_of s r" _ "''Farmer''"]
  by (simp add: dfs_items_store_Cons next_state_alone_with positions_next_state_with
      all_right_def cargo_with_def Let_def state_of_def [of s r]
      del: dfs_items_store.simps split: option.splits)

lemma dfs_store_induct [case_names out_of_frames enter no_items try_item]:
  assumes out_of_frames: "\<And>r V s. P 0 r V s"
    and enter: "\<And>d r V s.
        (\<And>fb. \<not> all_right (state_of s r) \<Longrightarrow> set (positions (state_of s r)) \<notin> V \<Longrightarrow>
               map_of (positions (state_of s r)) ''Farmer'' = Some fb \<Longrightarrow>
               Q d r fb (''Farmer'' # cargo_with (state_of s r) fb)
                 (insert (set (positions (state_of s r))) V) s)
        \<Longrightarrow> P (Suc d) r V s"
    and no_items: "\<And>d r fb V s. Q d r fb [] V s"
    and try_item: "\<And>d r fb item items V s.
        (legal (positions (cross (state_of s r) fb item)) \<Longrightarrow>
           P d (fst (next_state_with r fb item s)) V (snd (next_state_with r fb item s))) \<Longrightarrow>
        (\<not> legal (positions (cross (state_of s r) fb item)) \<Longrightarrow>
           Q d r fb items V (snd (next_state_with r fb item s))) \<Longrightarrow>
        (\<And>res V' s'. legal (positions (cross (state_of s r) fb item)) \<Longrightarrow>
           dfs_store d (fst (next_state_with r fb item s)) V (snd (next_state_with r fb item s))
             = Inr (res, V', s') \<Longrightarrow>
           \<not> truthy_ref s' res \<Longrightarrow> Q d r fb items V' s')
        \<Longrightarrow> Q d r fb (item # items) V s"
  shows "P d r V s" and "Q d r fb items V s"
proof -
  have QP: "Q d r fb items V s" if "\<And>r V s. P d r V s" for d r fb items V s
    using that by (induction items arbitrary: V s) (auto intro: no_items try_item)
  have PA: "P d r V s" for d r V s
  proof (induction d arbitrary: r V s)
    case 0
    show ?case by (rule out_of_frames)
  next
    case (Suc d)
    show ?case by (rule enter) (rule QP, rule Suc.IH)
  qed
  show "P d r V s" by (rule PA)
  show "Q d r fb items V s" by (rule QP) (rule PA)
qed

declare dfs_store.simps [simp del] dfs_items_store.simps [simp del]

lemma dfs_store_frame:
  "dfs_store d r V s = Inr (res, V', s') \<Longrightarrow> frame s s'"
  "dfs_items_store d r fb items V s = Inr (res, V', s') \<Longrightarrow> frame s s'"
proof (induction d r V s and d r fb items V s arbitrary: res V' s' and res V' s'
    rule: dfs_store_induct)
  case (out_of_frames r V s)
  then show ?case by (simp add: dfs_store.simps)
next
  case (enter d r V s)
  then show ?case
    by (fastforce simp add: dfs_store_Suc frame_refl split: option.splits if_splits)
next
  case (no_items d r fb V s)
  then show ?case by (simp add: dfs_items_store.simps frame_refl)
next
  case (try_item d r fb item items V s)
  let ?r = "fst (next_state_with r fb item s)" and ?s = "snd (next_state_with r fb item s)"
  have 0: "frame s ?s" by (rule frame_next_state_with)
  show ?case
  proof (cases "legal (positions (cross (state_of s r) fb item))")
    case False
    with try_item.prems try_item.IH(2) have "frame ?s s'"
      by (simp add: dfs_items_store_Cons)
    with 0 show ?thesis by (rule frame_trans)
  next
    case True
    with try_item.prems obtain r1 V1 s1 where 1: "dfs_store d ?r V ?s = Inr (r1, V1, s1)"
      by (auto simp add: dfs_items_store_Cons split: sum.splits)
    with True try_item.IH(1) have 2: "frame ?s s1" by simp
    have "frame s1 s'"
      using try_item.prems True 1 try_item.IH(3) [of r1 V1 s1] frame_refl
      by (auto simp add: dfs_items_store_Cons split: if_splits)
    with 0 2 show ?thesis by (blast intro: frame_trans)
  qed
qed

text \<open>
  The search on the store computes what the search on values computes.
\<close>

lemma dfs_store_refines:
  "allocated s r \<Longrightarrow>
     dfs d (state_of s r) V =
       (case dfs_store d r V s of
          Inl e \<Rightarrow> Inl e
        | Inr (res, V', s') \<Rightarrow> Inr (map_option (list_at s') res, V'))"
  "allocated s r \<Longrightarrow>
     dfs_items d (state_of s r) fb items V =
       (case dfs_items_store d r fb items V s of
          Inl e \<Rightarrow> Inl e
        | Inr (res, V', s') \<Rightarrow> Inr (map_option (list_at s') res, V'))"
proof (induction d r V s and d r fb items V s rule: dfs_store_induct)
  case (out_of_frames r V s)
  show ?case by (simp add: dfs_0 dfs_store.simps)
next
  case (enter d r V s)
  then show ?case
    by (simp add: dfs_Suc dfs_store_Suc split: option.splits)
      (simp add: state_of_def)
next
  case (no_items d r fb V s)
  show ?case by (simp add: dfs_items_Nil dfs_items_store.simps)
next
  case (try_item d r fb item items V s)
  let ?r = "fst (next_state_with r fb item s)" and ?s = "snd (next_state_with r fb item s)"
  have 0: "frame s ?s" by (rule frame_next_state_with)
  with try_item.prems have same: "state_of ?s r = state_of s r" and alloc: "allocated ?s r"
    by (simp_all add: frame_state_of frame_allocated)
  show ?case
  proof (cases "legal (positions (cross (state_of s r) fb item))")
    case False
    with try_item.IH(2) [OF False alloc] same show ?thesis
      by (simp add: dfs_items_Cons dfs_items_store_Cons)
  next
    case True
    have 1: "dfs d (cross (state_of s r) fb item) V =
       (case dfs_store d ?r V ?s of
          Inl e \<Rightarrow> Inl e
        | Inr (res, V', s') \<Rightarrow> Inr (map_option (list_at s') res, V'))"
      using try_item.IH(1) [OF True allocated_next_state_with]
      by (simp add: state_of_next_state_with)
    show ?thesis
    proof (cases "dfs_store d ?r V ?s")
      case (Inl e)
      with True 1 show ?thesis
        by (simp add: dfs_items_Cons dfs_items_store_Cons)
    next
      case (Inr p)
      obtain r1 V1 s1 where p: "p = (r1, V1, s1)" by (cases p)
      show ?thesis
      proof (cases "truthy_ref s1 r1")
        case t: True
        with True 1 Inr p show ?thesis
          by (simp add: dfs_items_Cons dfs_items_store_Cons truthy_map_list_at)
      next
        case f: False
        from Inr p have "frame ?s s1" by (simp add: dfs_store_frame(1))
        with 0 have "frame s s1" by (rule frame_trans)
        with try_item.prems have "state_of s1 r = state_of s r" and "allocated s1 r"
          by (simp_all add: frame_state_of frame_allocated)
        with try_item.IH(3) [OF True _ f, of V1] True 1 Inr p f show ?thesis
          by (simp add: dfs_items_Cons dfs_items_store_Cons truthy_map_list_at)
      qed
    qed
  qed
qed

lemma solve_store_refines:
  assumes "allocated s (state_obj g)"
  shows "solve limit (game_of s g) =
           (case solve_store limit g s of
              Inl e \<Rightarrow> Inl e
            | Inr (res, g', s') \<Rightarrow> Inr (result_of s' res, game_of s' g'))"
proof (cases "cached_solutions_obj g \<noteq> None \<and> the (cached_solutions_obj g) \<noteq> {}")
  case True
  then show ?thesis
    by (simp add: solve_def solve_store_def game_of_def result_of_def)
next
  case False
  show ?thesis
  proof (cases "dfs_store limit (state_obj g) {} s")
    case (Inl e)
    with False dfs_store_refines(1) [OF assms, of limit "{}"] show ?thesis
      by (auto simp add: solve_def solve_store_def game_of_def)
  next
    case (Inr p)
    obtain r V s' where p: "p = (r, V, s')" by (cases p)
    with Inr have "frame s s'" by (simp add: dfs_store_frame(1))
    then have "state_of s' (state_obj g) = state_of s (state_obj g)"
      using assms by (rule frame_state_of)
    with False Inr p dfs_store_refines(1) [OF assms, of limit "{}"] show ?thesis
      by (auto simp add: solve_def solve_store_def game_of_def result_of_def truthy_map_list_at
          truthy_ref_def split: option.splits)
  qed
qed

text \<open>
  Claim C9. \<^verbatim>\<open>solve\<close> does not mutate the live game: when it returns, the game still refers to
  the same \<^verbatim>\<open>GameState\<close>, the positions dictionary and the history list of that state hold
  what they held before the call, and the move count is the same; only the cache may
  differ. More generally every object that existed before the call is unchanged: the
  search writes only into the copies it has made.
\<close>

theorem solve_store_frame:
  assumes "solve_store limit self s = Inr (res, self', s')"
    and "positions_ref (state_obj self) < next_addr s"
    and "history_ref (state_obj self) < next_addr s"
  shows "state_obj self' = state_obj self
       \<and> dict_at s' (positions_ref (state_obj self')) = dict_at s (positions_ref (state_obj self))
       \<and> list_at s' (history_ref (state_obj self')) = list_at s (history_ref (state_obj self))
       \<and> move_count_obj self' = move_count_obj self
       \<and> frame s s'"
proof -
  have "state_obj self' = state_obj self \<and> move_count_obj self' = move_count_obj self \<and> frame s s'"
    using assms(1) dfs_store_frame(1) [of limit "state_obj self" "{}" s]
    by (auto simp add: solve_store_def frame_refl split: sum.splits if_splits)
  with assms(2,3) show ?thesis
    by (simp add: frame_def)
qed

lemma game_of_game0: "game_of store0 game0 = new_game"
  by (simp add: game_of_def state_of_def store0_def game0_def new_game_def)

theorem solve_store_frame_witness:
  "\<exists>res self' s'.
     solve_store 17 game0 store0 = Inr (res, self', s')
     \<and> state_obj self' = \<lparr>positions_ref = 0, history_ref = 1\<rparr>
     \<and> dict_at s' 0 = [(''Farmer'', LEFT), (''Fox'', LEFT), (''Chicken'', LEFT), (''Grain'', LEFT)]
     \<and> list_at s' 1 = []
     \<and> move_count_obj self' = 0"
proof -
  have "allocated store0 (state_obj game0)"
    by (simp add: allocated_def store0_def game0_def)
  from solve_store_refines [OF this, of 17]
  have "solve_store 17 game0 store0 \<noteq> Inl e" for e
    by (auto simp add: game_of_game0 solve_new_game_eq)
  then obtain res self' s' where 1: "solve_store 17 game0 store0 = Inr (res, self', s')"
    by (cases "solve_store 17 game0 store0") auto
  from solve_store_frame [OF 1] show ?thesis
    using 1 by (auto simp add: store0_def game0_def)
qed

end
